theory Spec2Isabelle
  imports Main "HOL-Library.AList"
begin

section \<open>Document model (types/postman.ts)\<close>

text \<open>
  Values of TypeScript type \<open>any\<close> (\<open>response\<close>, \<open>protocolProfileBehavior\<close>, the
  \<open>data\<close> of a response) are JSON values. An object is the list of its own properties
  in insertion order. The numbers of the host are IEEE doubles; nothing in the functions
  below computes with them, and their type is left abstract. The strings of the host are
  sequences of UTF-16 code units; the functions below compare strings, test them for
  emptiness and append them, and the model takes \<open>string\<close> for them throughout.
\<close>

typedecl jsnumber

datatype json =
    JNull
  | JBool bool
  | JNum jsnumber
  | JStr string
  | JArr "json list"
  | JObj "(string \<times> json) list"

datatype HttpMethod = GET | POST | PUT | DELETE | PATCH | HEAD | OPTIONS

text \<open>\<open>PostmanHeader\<close>: an optional field is an \<open>option\<close>; \<open>None\<close> is \<open>undefined\<close>.\<close>

record PostmanHeader =
  hdr_key :: string
  hdr_value :: string
  hdr_type :: "string option"
  hdr_disabled :: "bool option"

text \<open>The entries of \<open>formdata\<close> and of the auth arrays: \<open>{key, value, type}\<close>.\<close>

record KeyValueType =
  kv_key :: string
  kv_value :: string
  kv_type :: string

datatype BodyMode = raw | formdata | urlencoded | binary | graphql

record PostmanBody =
  body_mode :: BodyMode
  body_raw :: "string option"
  body_options :: "string option option"
  body_formdata :: "KeyValueType list option"

text \<open>
  \<open>body_options\<close>: \<open>None\<close> is no \<open>options\<close>, \<open>Some None\<close> is \<open>options: {}\<close>,
  \<open>Some (Some l)\<close> is \<open>options: {raw: {language: l}}\<close>.
\<close>

record PostmanUrl =
  url_raw :: string
  url_protocol :: "string option"
  url_host :: "string list option"
  url_port :: "string option"
  url_path :: "string list option"
  url_query :: "(string \<times> string) list option"

datatype AuthType = noauth | bearer | oauth2 | basic | apikey

record PostmanAuth =
  auth_type :: AuthType
  auth_bearer :: "KeyValueType list option"
  auth_oauth2 :: "KeyValueType list option"
  auth_basic :: "KeyValueType list option"
  auth_apikey :: "KeyValueType list option"

text \<open>\<open>url: PostmanUrl | string\<close>.\<close>

datatype UrlField = UrlString string | UrlObject PostmanUrl

record PostmanRequest =
  req_method :: HttpMethod
  req_header :: "PostmanHeader list"
  req_body :: "PostmanBody option"
  req_url :: UrlField
  req_auth :: "PostmanAuth option"

text \<open>
  \<open>PostmanItem\<close>: \<open>item\<close> is present for folders, \<open>request\<close> for leaf requests.
\<close>

datatype PostmanItem = PostmanItem
  (item_name: string)
  (item_item: "PostmanItem list option")
  (item_request: "PostmanRequest option")
  (item_response: "json list option")
  (item_protocolProfileBehavior: "json option")

record CollectionInfo =
  info_postman_id :: string
  info_name :: string
  info_schema :: string
  info_exporter_id :: "string option"
  info_description :: "string option"

record PostmanCollection =
  col_info :: CollectionInfo
  col_item :: "PostmanItem list"

section \<open>Tree navigator (utils/postmanUtils.ts)\<close>

text \<open>
  The loop of \<open>findItemByPath\<close> over the remaining segments, with its two variables
  \<open>current\<close> and \<open>item\<close>. \<open>current.find(i => i.name === segment)\<close> is the first
  sibling of that name. An array is truthy even when empty, so \<open>if (item.item)\<close> tests
  the presence of the field; when it is absent \<open>current\<close> keeps its value.
\<close>

fun findItemByPath_loop ::
  "PostmanItem list \<Rightarrow> PostmanItem option \<Rightarrow> string list \<Rightarrow> PostmanItem option" where
  "findItemByPath_loop current item [] = item"
| "findItemByPath_loop current item (segment # path) =
     (case find (\<lambda>i. item_name i = segment) current of
        None \<Rightarrow> None
      | Some i \<Rightarrow>
          (case item_item i of
             Some sub \<Rightarrow> findItemByPath_loop sub (Some i) path
           | None \<Rightarrow> findItemByPath_loop current (Some i) path))"

definition findItemByPath :: "PostmanCollection \<Rightarrow> string list \<Rightarrow> PostmanItem option" where
  "findItemByPath collection path = findItemByPath_loop (col_item collection) None path"

text \<open>
  The navigator as the specification words it: a Folder is descended into for the next
  segment, and a Leaf ends the walk, so that a Leaf is only reached by the last segment.
\<close>

fun spec_findItems :: "PostmanItem list \<Rightarrow> string list \<Rightarrow> PostmanItem option" where
  "spec_findItems current [] = None"
| "spec_findItems current [segment] = find (\<lambda>i. item_name i = segment) current"
| "spec_findItems current (segment # path) =
     (case find (\<lambda>i. item_name i = segment) current of
        None \<Rightarrow> None
      | Some i \<Rightarrow>
          (case item_item i of
             Some sub \<Rightarrow> spec_findItems sub path
           | None \<Rightarrow> None))"

definition spec_findItemByPath :: "PostmanCollection \<Rightarrow> string list \<Rightarrow> PostmanItem option" where
  "spec_findItemByPath collection path = spec_findItems (col_item collection) path"

text \<open>A Leaf carries a request and has no subitems.\<close>

definition is_leaf :: "PostmanItem \<Rightarrow> bool" where
  "is_leaf i = (item_item i = None \<and> item_request i \<noteq> None)"

section \<open>Request executor (utils/postmanUtils.ts)\<close>

text \<open>
  The header object \<open>headers: Record<string, string>\<close> is the list of its own
  properties. \<open>headers[k] = v\<close> overwrites the value of an existing property and
  appends a new one otherwise; on a plain object the key \<open>__proto__\<close> is the
  accessor of \<open>Object.prototype\<close>, whose setter ignores a string, so that this one
  assignment creates no property. The theorems read the object through \<open>map_of\<close>,
  the order of the properties is not used.
\<close>

definition js_set :: "string \<Rightarrow> string \<Rightarrow> (string \<times> string) list \<Rightarrow> (string \<times> string) list" where
  "js_set k v obj = (if k = ''__proto__'' then obj else AList.update k v obj)"

text \<open>
  Lines 68 to 73: \<open>!h.disabled && h.key && h.value\<close>; a string is truthy when it is
  not empty, \<open>disabled\<close> is falsy when it is absent or false.
\<close>

definition prepareHeaders :: "PostmanHeader list \<Rightarrow> (string \<times> string) list" where
  "prepareHeaders hs =
     fold (\<lambda>h headers.
             if hdr_disabled h \<noteq> Some True \<and> hdr_key h \<noteq> [] \<and> hdr_value h \<noteq> []
             then js_set (hdr_key h) (hdr_value h) headers
             else headers) hs []"

text \<open>
  Lines 76 to 81: the bearer array is truthy when present; \<open>find(...)?.value\<close> is the
  value of the first entry with key \<open>token\<close>, and \<open>if (token)\<close> needs it non-empty.
\<close>

definition addAuthHeaders :: "PostmanAuth option \<Rightarrow> (string \<times> string) list \<Rightarrow> (string \<times> string) list" where
  "addAuthHeaders auth headers =
     (case auth of
        None \<Rightarrow> headers
      | Some a \<Rightarrow>
          if auth_type a = bearer then
            (case auth_bearer a of
               None \<Rightarrow> headers
             | Some entries \<Rightarrow>
                 (case find (\<lambda>item. kv_key item = ''token'') entries of
                    None \<Rightarrow> headers
                  | Some item \<Rightarrow>
                      if kv_value item \<noteq> []
                      then js_set ''Authorization'' (''Bearer '' @ kv_value item) headers
                      else headers))
          else headers)"

text \<open>Lines 84 to 86: \<open>body\<close> is set when the mode is raw and the raw text is truthy.\<close>

definition prepareBody :: "PostmanBody option \<Rightarrow> string option" where
  "prepareBody b =
     (case b of
        None \<Rightarrow> None
      | Some bd \<Rightarrow>
          if body_mode bd = raw then
            (case body_raw bd of
               None \<Rightarrow> None
             | Some text \<Rightarrow> if text \<noteq> [] then Some text else None)
          else None)"

text \<open>Lines 87 to 89, inside the same \<open>if\<close>: the default content type.\<close>

definition addContentType :: "string option \<Rightarrow> (string \<times> string) list \<Rightarrow> (string \<times> string) list" where
  "addContentType body headers =
     (case body of
        None \<Rightarrow> headers
      | Some _ \<Rightarrow>
          (case map_of headers ''Content-Type'' of
             None \<Rightarrow> js_set ''Content-Type'' ''application/json'' headers
           | Some v \<Rightarrow>
               if v = [] then js_set ''Content-Type'' ''application/json'' headers
               else headers))"

text \<open>Line 65: the URL is the string itself or the \<open>raw\<close> field of the URL object.\<close>

definition prepareUrl :: "UrlField \<Rightarrow> string" where
  "prepareUrl u = (case u of UrlString s \<Rightarrow> s | UrlObject obj \<Rightarrow> url_raw obj)"

text \<open>The arguments of \<open>fetch\<close>: the URL and the \<open>method\<close>, \<open>headers\<close>, \<open>body\<close> options.\<close>

record FetchCall =
  call_url :: string
  call_method :: HttpMethod
  call_headers :: "(string \<times> string) list"
  call_body :: "string option"

text \<open>
  Lines 65 to 97. The body option is
  \<open>body && request.method !== 'GET' ? body : undefined\<close>.
\<close>

definition prepareCall :: "PostmanRequest \<Rightarrow> FetchCall" where
  "prepareCall request =
     (let body = prepareBody (req_body request);
          headers = addContentType body
                      (addAuthHeaders (req_auth request) (prepareHeaders (req_header request)))
      in \<lparr>call_url = prepareUrl (req_url request),
          call_method = req_method request,
          call_headers = headers,
          call_body = (if body \<noteq> None \<and> req_method request \<noteq> GET then body else None)\<rparr>)"

text \<open>
  What a \<open>catch\<close> receives: an \<open>Error\<close> with its message, or any other thrown value.
\<close>

datatype JsThrown = ErrorObject string | OtherValue

text \<open>
  What \<open>fetch\<close> resolves with: status, status text, the headers in the order of
  \<open>response.headers.forEach\<close>, and the outcome of \<open>response.text()\<close>.
\<close>

record FetchResponse =
  resp_status :: int
  resp_statusText :: string
  resp_headers :: "(string \<times> string) list"
  resp_text :: "JsThrown + string"

text \<open>
  The host: \<open>fetch\<close> (a rejection is \<open>Inl\<close>), the reading of \<open>Date.now()\<close>
  at the start and the one that the result is built from, \<open>JSON.parse\<close> (\<open>None\<close>
  when it throws) and the byte size of a text as a \<open>Blob\<close>.
\<close>

record Host =
  host_fetch :: "FetchCall \<Rightarrow> JsThrown + FetchResponse"
  host_now_start :: int
  host_now_end :: int
  host_JSON_parse :: "string \<Rightarrow> json option"
  host_blob_size :: "string \<Rightarrow> nat"

record RequestResponse =
  rr_status :: int
  rr_statusText :: string
  rr_headers :: "(string \<times> string) list"
  rr_data :: json
  rr_responseTime :: int
  rr_size :: nat

text \<open>Line 129: \<open>error instanceof Error ? error.message : 'Unknown error'\<close>.\<close>

definition errorMessage :: "JsThrown \<Rightarrow> string" where
  "errorMessage error =
     (case error of ErrorObject message \<Rightarrow> message | OtherValue \<Rightarrow> ''Unknown error'')"

text \<open>Lines 122 to 133, the \<open>catch\<close> block.\<close>

definition networkError :: "Host \<Rightarrow> JsThrown \<Rightarrow> RequestResponse" where
  "networkError host error =
     \<lparr>rr_status = 0,
      rr_statusText = ''Network Error'',
      rr_headers = [],
      rr_data = JObj [(''error'', JStr (errorMessage error))],
      rr_responseTime = host_now_end host - host_now_start host,
      rr_size = 0\<rparr>"

text \<open>
  \<open>executeRequest\<close>: everything from \<open>fetch\<close> on is inside the \<open>try\<close>; the inner
  \<open>try\<close> keeps the raw text when \<open>JSON.parse\<close> throws.
\<close>

definition executeRequest :: "Host \<Rightarrow> PostmanRequest \<Rightarrow> RequestResponse" where
  "executeRequest host request =
     (case host_fetch host (prepareCall request) of
        Inl error \<Rightarrow> networkError host error
      | Inr response \<Rightarrow>
          (case resp_text response of
             Inl error \<Rightarrow> networkError host error
           | Inr data \<Rightarrow>
               \<lparr>rr_status = resp_status response,
                rr_statusText = resp_statusText response,
                rr_headers = fold (\<lambda>(key, value) responseHeaders. js_set key value responseHeaders)
                               (resp_headers response) [],
                rr_data = (case host_JSON_parse host data of Some parsedData \<Rightarrow> parsedData
                           | None \<Rightarrow> JStr data),
                rr_responseTime = host_now_end host - host_now_start host,
                rr_size = host_blob_size host data\<rparr>))"

section \<open>Directory listing (utils/postmanUtils.ts)\<close>

text \<open>
  \<open>parsePostmanCollection\<close> is a cast: it returns its argument. Its counterpart
  \<open>exportCollection\<close> (lines 7 to 9) is the host's \<open>JSON.stringify\<close> with an
  indent of two; like \<open>JSON.parse\<close> it is a function of the host over doubles and
  UTF-16 strings, and \<open>JSON.parse\<close> enters the functions below as a parameter.
\<close>

definition parsePostmanCollection :: "json \<Rightarrow> json" where
  "parsePostmanCollection j = j"

text \<open>
  An entry of the directory: its name, the kind of its handle, and the outcome of
  \<open>handle.getFile()\<close> followed by \<open>file.text()\<close>.
\<close>

datatype HandleKind = KindFile | KindDirectory

record DirEntry =
  entry_name :: string
  entry_kind :: HandleKind
  entry_text :: "JsThrown + string"

text \<open>\<open>String.prototype.endsWith\<close>.\<close>

definition endsWith :: "string \<Rightarrow> string \<Rightarrow> bool" where
  "endsWith s searchString =
     (length searchString \<le> length s \<and> drop (length s - length searchString) s = searchString)"

text \<open>
  The \<open>for await\<close> loop of \<open>loadCollectionsFromFolder\<close> over the steps of
  \<open>dirHandle.entries()\<close>; the first argument is \<open>JSON.parse\<close>, with \<open>None\<close>
  for a throw. A step that throws (\<open>Inl\<close>) leaves the loop through the outer
  \<open>catch\<close>; a failure inside the inner \<open>try\<close> (reading the file, or parsing
  its text) goes on with the next entry.
\<close>

fun loadCollections_loop ::
  "(string \<Rightarrow> json option) \<Rightarrow> (JsThrown + DirEntry) list \<Rightarrow> json list \<Rightarrow> json list" where
  "loadCollections_loop parse [] collections = collections"
| "loadCollections_loop parse (Inl error # steps) collections = collections"
| "loadCollections_loop parse (Inr entry # steps) collections =
     (if entry_kind entry = KindFile \<and> endsWith (entry_name entry) ''.collection.json'' then
        (case entry_text entry of
           Inl error \<Rightarrow> loadCollections_loop parse steps collections
         | Inr content \<Rightarrow>
             (case parse content of
                None \<Rightarrow> loadCollections_loop parse steps collections
              | Some j \<Rightarrow>
                  loadCollections_loop parse steps (collections @ [parsePostmanCollection j])))
      else loadCollections_loop parse steps collections)"

definition loadCollectionsFromFolder ::
  "(string \<Rightarrow> json option) \<Rightarrow> (JsThrown + DirEntry) list \<Rightarrow> json list" where
  "loadCollectionsFromFolder parse dirHandle = loadCollections_loop parse dirHandle []"

section \<open>Constructors (utils/postmanUtils.ts)\<close>

definition createNewRequest :: "string \<Rightarrow> PostmanItem" where
  "createNewRequest name =
     PostmanItem name None
       (Some \<lparr>req_method = GET, req_header = [], req_body = None, req_url = UrlString [],
              req_auth = Some \<lparr>auth_type = noauth, auth_bearer = None, auth_oauth2 = None,
                               auth_basic = None, auth_apikey = None\<rparr>\<rparr>)
       (Some []) None"

definition createNewFolder :: "string \<Rightarrow> PostmanItem" where
  "createNewFolder name = PostmanItem name (Some []) None None None"

section \<open>Collection mutator (components/PostmanApp.tsx)\<close>

text \<open>
  \<open>folder.item.push(newRequest)\<close> changes the node that \<open>findItemByPath\<close> returned,
  in place. On the tree as a value this is the rebuilding of the tree along the walk of
  \<open>findItemByPath\<close>: the node changed is the first sibling of the last segment's name in
  the list the walk is in.
\<close>

fun update_first :: "('a \<Rightarrow> bool) \<Rightarrow> ('a \<Rightarrow> 'a) \<Rightarrow> 'a list \<Rightarrow> 'a list" where
  "update_first P f [] = []"
| "update_first P f (x # xs) = (if P x then f x # xs else x # update_first P f xs)"

definition push_child :: "PostmanItem \<Rightarrow> PostmanItem \<Rightarrow> PostmanItem" where
  "push_child new i =
     (case i of PostmanItem n sub rq rs ppb \<Rightarrow>
        PostmanItem n (map_option (\<lambda>items. items @ [new]) sub) rq rs ppb)"

definition set_children :: "PostmanItem list \<Rightarrow> PostmanItem \<Rightarrow> PostmanItem" where
  "set_children items i =
     (case i of PostmanItem n sub rq rs ppb \<Rightarrow> PostmanItem n (Some items) rq rs ppb)"

fun pushAtPath :: "PostmanItem list \<Rightarrow> string list \<Rightarrow> PostmanItem \<Rightarrow> PostmanItem list" where
  "pushAtPath current [] new = current"
| "pushAtPath current [segment] new =
     update_first (\<lambda>i. item_name i = segment) (push_child new) current"
| "pushAtPath current (segment # path) new =
     (case find (\<lambda>i. item_name i = segment) current of
        None \<Rightarrow> current
      | Some i \<Rightarrow>
          (case item_item i of
             Some sub \<Rightarrow>
               update_first (\<lambda>i. item_name i = segment) (set_children (pushAtPath sub path new))
                 current
           | None \<Rightarrow> pushAtPath current path new))"

text \<open>
  \<open>handleAddRequest\<close>: the first argument is the answer of \<open>prompt\<close> (\<open>None\<close> when it
  is cancelled), the second the \<open>collections\<close> state; the result is the state after
  the handler (the argument of \<open>setCollections\<close>, or the old state when the handler
  returns early).
\<close>

definition handleAddRequest ::
  "string option \<Rightarrow> PostmanCollection list \<Rightarrow> PostmanCollection \<Rightarrow> string list option \<Rightarrow>
   PostmanCollection list" where
  "handleAddRequest answer collections collection folderPath =
     (case answer of
        None \<Rightarrow> collections
      | Some name \<Rightarrow>
          if name = [] then collections
          else
            let newRequest = createNewRequest name in
            map (\<lambda>col.
                  if info_postman_id (col_info col) = info_postman_id (col_info collection) then
                    (case folderPath of
                       None \<Rightarrow> col\<lparr>col_item := col_item col @ [newRequest]\<rparr>
                     | Some p \<Rightarrow>
                         if p = [] then col\<lparr>col_item := col_item col @ [newRequest]\<rparr>
                         else
                           (case findItemByPath col p of
                              None \<Rightarrow> col
                            | Some folder \<Rightarrow>
                                (case item_item folder of
                                   None \<Rightarrow> col
                                 | Some sub \<Rightarrow>
                                     col\<lparr>col_item := pushAtPath (col_item col) p newRequest\<rparr>)))
                  else col) collections)"

section \<open>Auxiliary notions and sample inputs\<close>

text \<open>
  The headers that line 70 lets through and whose assignment creates a property.
\<close>

definition copied :: "PostmanHeader \<Rightarrow> bool" where
  "copied h = (hdr_disabled h \<noteq> Some True \<and> hdr_key h \<noteq> [] \<and> hdr_value h \<noteq> [] \<and>
               hdr_key h \<noteq> ''__proto__'')"


text \<open>
  A path runs past a Leaf when one of its segments before the last resolves, in the
  navigator of the specification, to an item without subitems.
\<close>

fun passes_leaf :: "PostmanItem list \<Rightarrow> string list \<Rightarrow> bool" where
  "passes_leaf current [] = False"
| "passes_leaf current [segment] = False"
| "passes_leaf current (segment # path) =
     (case find (\<lambda>i. item_name i = segment) current of
        None \<Rightarrow> False
      | Some i \<Rightarrow>
          (case item_item i of
             Some sub \<Rightarrow> passes_leaf sub path
           | None \<Rightarrow> True))"

text \<open>The request of a fresh item, as \<open>createNewRequest\<close> builds it.\<close>

definition freshRequest :: PostmanRequest where
  "freshRequest =
     \<lparr>req_method = GET, req_header = [], req_body = None, req_url = UrlString [],
      req_auth = Some \<lparr>auth_type = noauth, auth_bearer = None, auth_oauth2 = None,
                       auth_basic = None, auth_apikey = None\<rparr>\<rparr>"

text \<open>Headers as the request editor stores them (\<open>updateHeaders\<close>).\<close>

definition editorHeader :: "string \<Rightarrow> string \<Rightarrow> bool \<Rightarrow> PostmanHeader" where
  "editorHeader k v enabled =
     \<lparr>hdr_key = k, hdr_value = v, hdr_type = Some ''text'', hdr_disabled = Some (\<not> enabled)\<rparr>"

text \<open>Bearer auth as the auth editor stores it (\<open>handleBearerTokenChange\<close>).\<close>

definition bearerAuth :: "string \<Rightarrow> PostmanAuth" where
  "bearerAuth token =
     \<lparr>auth_type = bearer,
      auth_bearer = Some [\<lparr>kv_key = ''token'', kv_value = token, kv_type = ''string''\<rparr>],
      auth_oauth2 = None, auth_basic = None, auth_apikey = None\<rparr>"

text \<open>A raw body as the body editor stores it (\<open>updateBody\<close>).\<close>

definition rawBody :: "string \<Rightarrow> PostmanBody" where
  "rawBody t =
     \<lparr>body_mode = raw, body_raw = Some t, body_options = Some (Some ''json''),
      body_formdata = None\<rparr>"

text \<open>A host whose \<open>fetch\<close> always rejects with the given value.\<close>

definition rejectingHost :: "JsThrown \<Rightarrow> Host" where
  "rejectingHost e =
     \<lparr>host_fetch = (\<lambda>call. Inl e), host_now_start = 1000, host_now_end = 1042,
      host_JSON_parse = (\<lambda>t. None), host_blob_size = length\<rparr>"





definition basicThenBearerRequest :: "string \<Rightarrow> PostmanRequest" where
  "basicThenBearerRequest token =
     freshRequest\<lparr>req_header := [editorHeader ''Authorization'' ''Basic dXNlcg=='' True],
                  req_auth := Some (bearerAuth token)\<rparr>"

definition getWithBodyRequest :: PostmanRequest where
  "getWithBodyRequest = freshRequest\<lparr>req_body := Some (rawBody ''{}'')\<rparr>"

text \<open>A collection with a leaf request and an empty folder at the top level.\<close>

definition sampleCollection :: PostmanCollection where
  "sampleCollection =
     \<lparr>col_info = \<lparr>info_postman_id = ''c1'', info_name = ''Sample'',
                   info_schema = ''https://schema.getpostman.com/json/collection/v2.1.0/collection.json'',
                   info_exporter_id = None, info_description = None\<rparr>,
      col_item = [createNewRequest ''ping'', createNewFolder ''users'']\<rparr>"

text \<open>What the loop of the directory listing does with one entry.\<close>

definition entry_matches :: "DirEntry \<Rightarrow> bool" where
  "entry_matches e = (entry_kind e = KindFile \<and> endsWith (entry_name e) ''.collection.json'')"

definition entry_loads :: "(string \<Rightarrow> json option) \<Rightarrow> DirEntry \<Rightarrow> json option" where
  "entry_loads parse e =
     (case entry_text e of
        Inl error \<Rightarrow> None
      | Inr content \<Rightarrow> map_option parsePostmanCollection (parse content))"

text \<open>
  The values that \<open>JSON.parse\<close> gives for the texts of the sample directory: an empty
  object, an empty array, and a throw for the text that is cut off.
\<close>

definition sampleParse :: "string \<Rightarrow> json option" where
  "sampleParse t =
     (if t = ''{}'' then Some (JObj []) else if t = ''[]'' then Some (JArr []) else None)"

definition fileEntry :: "string \<Rightarrow> string \<Rightarrow> DirEntry" where
  "fileEntry n t = \<lparr>entry_name = n, entry_kind = KindFile, entry_text = Inr t\<rparr>"

section \<open>Theorems\<close>

lemma createNewRequest_request: "item_request (createNewRequest name) = Some freshRequest"
  by (simp add: createNewRequest_def freshRequest_def)

lemma findItemByPath_loop_spec:
  "spec_findItems current path = Some x \<Longrightarrow> findItemByPath_loop current it path = Some x"
proof (induction current path arbitrary: it rule: spec_findItems.induct)
  case (1 current)
  then show ?case by simp
next
  case (2 current segment)
  then show ?case by (simp split: option.splits)
next
  case (3 current segment s path)
  from "3.prems" obtain i sub where
    i: "find (\<lambda>i. item_name i = segment) current = Some i" and
    sub: "item_item i = Some sub" and
    rest: "spec_findItems sub (s # path) = Some x"
    by (auto split: option.splits)
  from "3.IH" [OF i sub rest] have "findItemByPath_loop sub (Some i) (s # path) = Some x" .
  with i sub show ?case
    by (simp del: findItemByPath_loop.simps add: findItemByPath_loop.simps(2) [of current it segment])
qed

text \<open>
  C9: the empty path resolves to nothing, in every collection.
\<close>

theorem findItemByPath_empty_path: "findItemByPath C [] = None"
  by (simp add: findItemByPath_def)

subsection \<open>Tree navigator\<close>

lemma findItemByPath_exact_chain:
  "spec_findItemByPath C p = Some l \<Longrightarrow> findItemByPath C p = Some l"
  by (simp add: spec_findItemByPath_def findItemByPath_def findItemByPath_loop_spec)

lemma findItemByPath_loop_repeats_leaf:
  "spec_findItems current path = Some leaf \<Longrightarrow> item_item leaf = None \<Longrightarrow>
   findItemByPath_loop current it (path @ [item_name leaf]) = Some leaf"
proof (induction current path arbitrary: it rule: spec_findItems.induct)
  case (1 current)
  then show ?case by simp
next
  case (2 current segment)
  then have f: "find (\<lambda>i. item_name i = segment) current = Some leaf" by simp
  then have "item_name leaf = segment" by (auto simp: find_Some_iff)
  with f "2.prems"(2) show ?case by simp
next
  case (3 current segment s path)
  from "3.prems"(1) obtain i sub where
    i: "find (\<lambda>i. item_name i = segment) current = Some i" and
    sub: "item_item i = Some sub" and
    rest: "spec_findItems sub (s # path) = Some leaf"
    by (auto split: option.splits)
  from "3.IH" [OF i sub rest "3.prems"(2)]
  have "findItemByPath_loop sub (Some i) ((s # path) @ [item_name leaf]) = Some leaf" .
  with i sub show ?case
    by (simp del: findItemByPath_loop.simps add: findItemByPath_loop.simps(2) [of current it segment])
qed

lemma findItemByPath_repeats_leaf:
  "spec_findItemByPath C path = Some leaf \<Longrightarrow> is_leaf leaf \<Longrightarrow>
   findItemByPath C (path @ [item_name leaf]) = Some leaf"
  by (simp add: spec_findItemByPath_def findItemByPath_def is_leaf_def
      findItemByPath_loop_repeats_leaf)

text \<open>
  C1: a path that the navigator of the specification resolves is resolved to the same
  item by \<open>findItemByPath\<close> (lemma \<open>findItemByPath_exact_chain\<close>). Past a Leaf the
  loop goes on among the siblings of the Leaf, so that the name of the Leaf, appended to
  its path, resolves to the Leaf again (lemma \<open>findItemByPath_repeats_leaf\<close>): in the
  sample collection the path \<open>ping, ping\<close> resolves to the Leaf \<open>ping\<close> and
  \<open>ping, users\<close> to the Folder \<open>users\<close>, where the claim has not-found.
\<close>

theorem findItemByPath_past_leaf:
  "spec_findItemByPath sampleCollection [''ping''] = Some (createNewRequest ''ping'') \<and>
   is_leaf (createNewRequest ''ping'') \<and>
   findItemByPath sampleCollection [''ping''] = Some (createNewRequest ''ping'') \<and>
   findItemByPath sampleCollection [''ping'', ''ping''] = Some (createNewRequest ''ping'') \<and>
   findItemByPath sampleCollection [''ping'', ''users''] = Some (createNewFolder ''users'')"
  by (simp add: spec_findItemByPath_def findItemByPath_def sampleCollection_def is_leaf_def
      createNewRequest_def createNewFolder_def)

subsection \<open>Collection mutator\<close>

text \<open>
  The guard of the handler: when \<open>findItemByPath\<close> resolves a non-empty folder path,
  in every collection of the target id, to nothing or to an item without subitems, the
  handler leaves the collection set as it is, whatever name is entered.
\<close>

lemma handleAddRequest_unresolved_path:
  assumes "folderPath \<noteq> []"
    and "\<forall>col \<in> set collections.
           info_postman_id (col_info col) = info_postman_id (col_info collection) \<longrightarrow>
           findItemByPath col folderPath = None \<or>
           (\<exists>leaf. findItemByPath col folderPath = Some leaf \<and> item_item leaf = None)"
  shows "handleAddRequest answer collections collection (Some folderPath) = collections"
proof (cases answer)
  case None
  then show ?thesis by (simp add: handleAddRequest_def)
next
  case (Some name)
  show ?thesis
  proof (cases "name = []")
    case True
    with Some show ?thesis by (simp add: handleAddRequest_def)
  next
    case False
    have "(if info_postman_id (col_info col) = info_postman_id (col_info collection) then
            (case Some folderPath of
               None \<Rightarrow> col\<lparr>col_item := col_item col @ [createNewRequest name]\<rparr>
             | Some p \<Rightarrow>
                 if p = [] then col\<lparr>col_item := col_item col @ [createNewRequest name]\<rparr>
                 else
                   (case findItemByPath col p of
                      None \<Rightarrow> col
                    | Some folder \<Rightarrow>
                        (case item_item folder of
                           None \<Rightarrow> col
                         | Some sub \<Rightarrow>
                             col\<lparr>col_item := pushAtPath (col_item col) p (createNewRequest name)\<rparr>)))
          else col) = col" if "col \<in> set collections" for col
      using that assms by auto
    then show ?thesis
      using Some False by (simp add: handleAddRequest_def Let_def map_idI)
  qed
qed

lemma handleAddRequest_unresolved_path_sample:
  "handleAddRequest (Some ''new'') [sampleCollection] sampleCollection (Some [''missing'']) =
     [sampleCollection] \<and>
   handleAddRequest (Some ''new'') [sampleCollection] sampleCollection (Some [''ping'']) =
     [sampleCollection]"
  using handleAddRequest_unresolved_path
      [of "[''missing'']" "[sampleCollection]" sampleCollection "Some ''new''"]
    handleAddRequest_unresolved_path
      [of "[''ping'']" "[sampleCollection]" sampleCollection "Some ''new''"]
  by (simp add: findItemByPath_def sampleCollection_def createNewRequest_def createNewFolder_def)

text \<open>
  The rebuilt tree is the old one with the node that \<open>findItemByPath\<close> returns
  replaced by the node with the new child: the walk along the same path ends at it.
\<close>

lemma find_update_first_same:
  "(\<And>x. P (g x) = P x) \<Longrightarrow> find P (update_first P g xs) = map_option g (find P xs)"
  by (induction xs) auto

lemma find_update_first_other:
  "(\<And>x. Q (g x) = Q x) \<Longrightarrow> (\<And>x. Q x \<Longrightarrow> \<not> P x) \<Longrightarrow>
   find Q (update_first P g xs) = find Q xs"
  by (induction xs) auto

lemma item_name_push_child [simp]: "item_name (push_child new i) = item_name i"
  by (cases i) (simp add: push_child_def)

lemma item_name_set_children [simp]: "item_name (set_children items i) = item_name i"
  by (cases i) (simp add: set_children_def)

lemma item_item_push_child [simp]:
  "item_item (push_child new i) = map_option (\<lambda>items. items @ [new]) (item_item i)"
  by (cases i) (simp add: push_child_def)

lemma item_item_set_children [simp]: "item_item (set_children items i) = Some items"
  by (cases i) (simp add: set_children_def)

lemma push_child_leaf: "item_item i = None \<Longrightarrow> push_child new i = i"
  by (cases i) (simp add: push_child_def)

lemma pushAtPath_keeps_leaf:
  "find (\<lambda>i. item_name i = segment) current = Some leaf \<Longrightarrow> item_item leaf = None \<Longrightarrow>
   find (\<lambda>i. item_name i = segment) (pushAtPath current path new) = Some leaf"
proof (induction current path new rule: pushAtPath.induct)
  case (1 current new)
  then show ?case by simp
next
  case (2 current t new)
  show ?case
  proof (cases "t = segment")
    case True
    with 2 show ?thesis
      by (simp add: find_update_first_same push_child_leaf)
  next
    case False
    then have "find (\<lambda>i. item_name i = segment)
                 (update_first (\<lambda>i. item_name i = t) (push_child new) current) =
               find (\<lambda>i. item_name i = segment) current"
      by (intro find_update_first_other) auto
    with 2 show ?thesis by simp
  qed
next
  case (3 current t u path new)
  show ?case
  proof (cases "find (\<lambda>i. item_name i = t) current")
    case None
    with 3 show ?thesis by simp
  next
    case (Some j)
    show ?thesis
    proof (cases "item_item j")
      case None
      with Some 3 show ?thesis by simp
    next
      case (Some sub)
      with \<open>find (\<lambda>i. item_name i = t) current = Some j\<close> "3.prems"
      have ne: "t \<noteq> segment" by auto
      have "find (\<lambda>i. item_name i = segment)
              (update_first (\<lambda>i. item_name i = t)
                 (set_children (pushAtPath sub (u # path) new)) current) =
            find (\<lambda>i. item_name i = segment) current"
        using ne by (intro find_update_first_other) auto
      with Some \<open>find (\<lambda>i. item_name i = t) current = Some j\<close> "3.prems" show ?thesis
        by simp
    qed
  qed
qed

lemma pushAtPath_found:
  "findItemByPath_loop current it path = Some folder \<Longrightarrow> path \<noteq> [] \<Longrightarrow>
   item_item folder = Some sub \<Longrightarrow>
   findItemByPath_loop (pushAtPath current path new) it' path = Some (push_child new folder)"
proof (induction current path new arbitrary: it it' rule: pushAtPath.induct)
  case (1 current new)
  then show ?case by simp
next
  case (2 current segment new)
  from "2.prems"(1) have f: "find (\<lambda>i. item_name i = segment) current = Some folder"
    by (auto split: option.splits)
  have "find (\<lambda>i. item_name i = segment)
          (update_first (\<lambda>i. item_name i = segment) (push_child new) current) =
        Some (push_child new folder)"
    using f by (simp add: find_update_first_same)
  then show ?case by (simp split: option.splits)
next
  case (3 current segment s path new)
  from "3.prems"(1) obtain i where
    i: "find (\<lambda>i. item_name i = segment) current = Some i"
    by (auto split: option.splits)
  show ?case
  proof (cases "item_item i")
    case None
    with i "3.prems"(1) have w: "findItemByPath_loop current (Some i) (s # path) = Some folder"
      by simp
    have keep: "find (\<lambda>i. item_name i = segment) (pushAtPath current (s # path) new) = Some i"
      using i None by (rule pushAtPath_keeps_leaf)
    have "findItemByPath_loop (pushAtPath current (s # path) new) (Some i) (s # path) =
            Some (push_child new folder)"
      using "3.IH"(1) [OF i None w _ "3.prems"(3)] by simp
    with i None keep show ?thesis
      by (simp del: findItemByPath_loop.simps pushAtPath.simps
          add: findItemByPath_loop.simps(2) [of _ _ segment] pushAtPath.simps(3))
  next
    case (Some children)
    with i "3.prems"(1) have w: "findItemByPath_loop children (Some i) (s # path) = Some folder"
      by simp
    let ?i = "set_children (pushAtPath children (s # path) new) i"
    have found: "find (\<lambda>i. item_name i = segment)
            (update_first (\<lambda>i. item_name i = segment)
               (set_children (pushAtPath children (s # path) new)) current) = Some ?i"
      using i by (simp add: find_update_first_same)
    have "findItemByPath_loop (pushAtPath children (s # path) new) (Some ?i) (s # path) =
            Some (push_child new folder)"
      using "3.IH"(2) [OF i Some w _ "3.prems"(3)] by simp
    with i Some found show ?thesis
      by (simp del: findItemByPath_loop.simps pushAtPath.simps
          add: findItemByPath_loop.simps(2) [of _ _ segment] pushAtPath.simps(3))
  qed
qed

text \<open>On the sample collection: a request added at the folder \<open>users\<close>.\<close>

lemma handleAddRequest_into_folder: "handleAddRequest (Some ''new'') [sampleCollection] sampleCollection (Some [''users'']) =
     [sampleCollection\<lparr>col_item :=
        [createNewRequest ''ping'',
         PostmanItem ''users'' (Some [createNewRequest ''new'']) None None None]\<rparr>]"
  by (simp add: handleAddRequest_def findItemByPath_def sampleCollection_def
      createNewRequest_def createNewFolder_def push_child_def)

lemma handleAddRequest_appends:
  assumes "name \<noteq> []" and "folderPath \<noteq> []"
    and "findItemByPath col folderPath = Some folder" and "item_item folder = Some sub"
  shows "handleAddRequest (Some name) [col] col (Some folderPath) =
           [col\<lparr>col_item := pushAtPath (col_item col) folderPath (createNewRequest name)\<rparr>]"
    and "findItemByPath
           (col\<lparr>col_item := pushAtPath (col_item col) folderPath (createNewRequest name)\<rparr>)
           folderPath = Some (push_child (createNewRequest name) folder)"
proof -
  show "handleAddRequest (Some name) [col] col (Some folderPath) =
           [col\<lparr>col_item := pushAtPath (col_item col) folderPath (createNewRequest name)\<rparr>]"
    using assms by (simp add: handleAddRequest_def Let_def)
  show "findItemByPath
           (col\<lparr>col_item := pushAtPath (col_item col) folderPath (createNewRequest name)\<rparr>)
           folderPath = Some (push_child (createNewRequest name) folder)"
    using pushAtPath_found [OF _ assms(2,4)] assms(3) by (simp add: findItemByPath_def)
qed

text \<open>
  On a path that does not run past a Leaf, \<open>findItemByPath\<close> is the navigator of the
  specification, and the handler does nothing where that navigator resolves the path to
  nothing or to a Leaf.
\<close>

lemma findItemByPath_loop_agrees:
  "\<not> passes_leaf current path \<Longrightarrow> path \<noteq> [] \<Longrightarrow>
   findItemByPath_loop current it path = spec_findItems current path"
proof (induction current path arbitrary: it rule: spec_findItems.induct)
  case (1 current)
  then show ?case by simp
next
  case (2 current segment)
  then show ?case by (simp split: option.splits)
next
  case (3 current segment s path)
  show ?case
  proof (cases "find (\<lambda>i. item_name i = segment) current")
    case None
    then show ?thesis by simp
  next
    case (Some i)
    with "3.prems"(1) obtain sub where sub: "item_item i = Some sub"
      and np: "\<not> passes_leaf sub (s # path)"
      by (cases "item_item i") auto
    from "3.IH" [OF Some sub np]
    have "findItemByPath_loop sub (Some i) (s # path) = spec_findItems sub (s # path)" by simp
    with Some sub show ?thesis
      by (simp del: findItemByPath_loop.simps spec_findItems.simps
          add: findItemByPath_loop.simps(2) [of current it segment] spec_findItems.simps(3))
  qed
qed

lemma findItemByPath_agrees:
  "\<not> passes_leaf (col_item C) path \<Longrightarrow> path \<noteq> [] \<Longrightarrow>
   findItemByPath C path = spec_findItemByPath C path"
  by (simp add: findItemByPath_def spec_findItemByPath_def findItemByPath_loop_agrees)

lemma handleAddRequest_unresolved_spec:
  assumes "folderPath \<noteq> []"
    and "\<forall>col \<in> set collections.
           info_postman_id (col_info col) = info_postman_id (col_info collection) \<longrightarrow>
           \<not> passes_leaf (col_item col) folderPath \<and>
           (spec_findItemByPath col folderPath = None \<or>
            (\<exists>leaf. spec_findItemByPath col folderPath = Some leaf \<and> item_item leaf = None))"
  shows "handleAddRequest answer collections collection (Some folderPath) = collections"
proof (rule handleAddRequest_unresolved_path [OF assms(1)])
  show "\<forall>col \<in> set collections.
           info_postman_id (col_info col) = info_postman_id (col_info collection) \<longrightarrow>
           findItemByPath col folderPath = None \<or>
           (\<exists>leaf. findItemByPath col folderPath = Some leaf \<and> item_item leaf = None)"
    using assms by (auto simp: findItemByPath_agrees)
qed

text \<open>With an absent or empty folder path the request is appended at the root.\<close>

lemma handleAddRequest_root:
  assumes "name \<noteq> []" and "folderPath = None \<or> folderPath = Some []"
  shows "handleAddRequest (Some name) collections collection folderPath =
           map (\<lambda>col. if info_postman_id (col_info col) = info_postman_id (col_info collection)
                      then col\<lparr>col_item := col_item col @ [createNewRequest name]\<rparr> else col)
             collections"
  using assms by (auto simp: handleAddRequest_def Let_def)

text \<open>
  C7: the handler does nothing for a folder path that \<open>findItemByPath\<close> resolves to
  nothing or to a Leaf (lemma \<open>handleAddRequest_unresolved_path\<close>), and so for every
  path that does not resolve and does not run past a Leaf (lemma
  \<open>handleAddRequest_unresolved_spec\<close>). A path that runs past a Leaf is resolved by
  \<open>findItemByPath\<close> among the siblings of the Leaf: in the sample collection there is
  no folder at the path \<open>ping, users\<close>, since \<open>ping\<close> is a Leaf, and the handler
  appends the new request to the folder \<open>users\<close> of the top level, where the claim has
  no change.
\<close>

theorem handleAddRequest_past_leaf_appends:
  "spec_findItemByPath sampleCollection [''ping''] = Some (createNewRequest ''ping'') \<and>
   is_leaf (createNewRequest ''ping'') \<and>
   spec_findItemByPath sampleCollection [''ping'', ''users''] = None \<and>
   handleAddRequest (Some ''new'') [sampleCollection] sampleCollection (Some [''ping'', ''users'']) =
     [sampleCollection\<lparr>col_item :=
        [createNewRequest ''ping'',
         PostmanItem ''users'' (Some [createNewRequest ''new'']) None None None]\<rparr>] \<and>
   handleAddRequest (Some ''new'') [sampleCollection] sampleCollection (Some [''ping'', ''users'']) \<noteq>
     [sampleCollection]"
  by (simp add: handleAddRequest_def findItemByPath_def spec_findItemByPath_def
      sampleCollection_def is_leaf_def createNewRequest_def createNewFolder_def push_child_def)

subsection \<open>Request executor\<close>

lemma find_append_cases:
  "find P (xs @ ys) = (case find P xs of None \<Rightarrow> find P ys | Some x \<Rightarrow> Some x)"
  by (induction xs) simp_all

lemma map_of_js_set:
  "map_of (js_set k v obj) k' = (if k \<noteq> ''__proto__'' \<and> k' = k then Some v else map_of obj k')"
  by (simp add: js_set_def update_conv')

lemma distinct_js_set:
  "distinct (map fst obj) \<Longrightarrow> distinct (map fst (js_set k v obj))"
  by (simp add: js_set_def distinct_update)

lemma map_of_header_fold:
  "map_of (fold (\<lambda>h headers.
             if hdr_disabled h \<noteq> Some True \<and> hdr_key h \<noteq> [] \<and> hdr_value h \<noteq> []
             then js_set (hdr_key h) (hdr_value h) headers
             else headers) hs acc) k =
   (case find (\<lambda>h. copied h \<and> hdr_key h = k) (rev hs) of
      Some h \<Rightarrow> Some (hdr_value h)
    | None \<Rightarrow> map_of acc k)"
proof (induction hs arbitrary: acc)
  case Nil
  then show ?case by simp
next
  case (Cons h hs)
  show ?case
    by (auto simp add: Cons.IH find_append_cases map_of_js_set copied_def split: option.splits)
qed

lemma distinct_header_fold:
  "distinct (map fst acc) \<Longrightarrow> distinct (map fst (fold (\<lambda>h headers.
             if hdr_disabled h \<noteq> Some True \<and> hdr_key h \<noteq> [] \<and> hdr_value h \<noteq> []
             then js_set (hdr_key h) (hdr_value h) headers
             else headers) hs acc))"
  by (induction hs arbitrary: acc) (simp_all add: distinct_js_set)

lemma map_of_prepareHeaders:
  "map_of (prepareHeaders hs) k =
     map_option hdr_value (find (\<lambda>h. copied h \<and> hdr_key h = k) (rev hs))"
  by (simp add: prepareHeaders_def map_of_header_fold split: option.splits)

lemma distinct_prepareHeaders: "distinct (map fst (prepareHeaders hs))"
  by (simp add: prepareHeaders_def distinct_header_fold)

lemma map_of_addAuthHeaders_other:
  "k \<noteq> ''Authorization'' \<Longrightarrow> map_of (addAuthHeaders auth headers) k = map_of headers k"
  by (simp add: addAuthHeaders_def map_of_js_set split: option.splits)

lemma distinct_addAuthHeaders:
  "distinct (map fst headers) \<Longrightarrow> distinct (map fst (addAuthHeaders auth headers))"
  by (simp add: addAuthHeaders_def distinct_js_set split: option.splits)

lemma map_of_addContentType_other:
  "k \<noteq> ''Content-Type'' \<Longrightarrow> map_of (addContentType body headers) k = map_of headers k"
  by (simp add: addContentType_def map_of_js_set split: option.splits)

lemma distinct_addContentType:
  "distinct (map fst headers) \<Longrightarrow> distinct (map fst (addContentType body headers))"
  by (simp add: addContentType_def distinct_js_set split: option.splits)

lemma call_headers_prepareCall:
  "call_headers (prepareCall r) =
     addContentType (prepareBody (req_body r))
       (addAuthHeaders (req_auth r) (prepareHeaders (req_header r)))"
  by (simp add: prepareCall_def Let_def)

lemma distinct_call_headers: "distinct (map fst (call_headers (prepareCall r)))"
  by (simp add: call_headers_prepareCall distinct_addContentType distinct_addAuthHeaders
      distinct_prepareHeaders)

lemma count_key_distinct:
  "distinct (map fst al) \<Longrightarrow> map_of al k = Some v \<Longrightarrow>
   length (filter (\<lambda>(k', v'). k' = k) al) = 1"
proof (induction al)
  case Nil
  then show ?case by simp
next
  case (Cons p al)
  obtain k' v' where p: "p = (k', v')" by (cases p)
  show ?case
  proof (cases "k' = k")
    case True
    with Cons.prems p have "k \<notin> fst ` set al" by simp
    then have "filter (\<lambda>(k', v'). k' = k) al = []"
      by (force simp: filter_empty_conv)
    with True p show ?thesis by simp
  next
    case False
    with Cons p show ?thesis by simp
  qed
qed









text \<open>
  C3 (amended): when the auth type is bearer and the first entry of the bearer array with
  key \<open>token\<close> has a non-empty value \<open>t\<close>, the outgoing header set has exactly one
  \<open>Authorization\<close> entry, valued \<open>Bearer t\<close>, whatever the request's own headers
  are; with any other auth type the outgoing call is the one of the same request without
  auth.
\<close>

theorem bearer_authorization_header:
  "(req_auth r = Some a \<and> auth_type a = bearer \<and> auth_bearer a = Some entries \<and>
    find (\<lambda>item. kv_key item = ''token'') entries = Some item \<and> kv_value item \<noteq> [] \<longrightarrow>
      map_of (call_headers (prepareCall r)) ''Authorization'' = Some (''Bearer '' @ kv_value item) \<and>
      length (filter (\<lambda>(k, v). k = ''Authorization'') (call_headers (prepareCall r))) = 1) \<and>
   (req_auth r' = Some a' \<and> auth_type a' \<noteq> bearer \<longrightarrow>
      prepareCall r' = prepareCall (r'\<lparr>req_auth := None\<rparr>))"
proof (intro conjI impI)
  assume h: "req_auth r = Some a \<and> auth_type a = bearer \<and> auth_bearer a = Some entries \<and>
    find (\<lambda>item. kv_key item = ''token'') entries = Some item \<and> kv_value item \<noteq> []"
  then have "addAuthHeaders (req_auth r) hs = js_set ''Authorization'' (''Bearer '' @ kv_value item) hs"
    for hs by (simp add: addAuthHeaders_def)
  then show m: "map_of (call_headers (prepareCall r)) ''Authorization'' = Some (''Bearer '' @ kv_value item)"
    by (simp add: call_headers_prepareCall map_of_addContentType_other map_of_js_set)
  show "length (filter (\<lambda>(k, v). k = ''Authorization'') (call_headers (prepareCall r))) = 1"
    using count_key_distinct [OF distinct_call_headers m] .
next
  assume "req_auth r' = Some a' \<and> auth_type a' \<noteq> bearer"
  then show "prepareCall r' = prepareCall (r'\<lparr>req_auth := None\<rparr>)"
    by (simp add: prepareCall_def addAuthHeaders_def)
qed

text \<open>
  C5 (amended): when \<open>fetch\<close> rejects, or reading the response text does, the result
  of \<open>executeRequest\<close> is the response with status 0, status text
  \<open>Network Error\<close>, no headers, size 0 and \<open>data = {error: m}\<close>, where \<open>m\<close> is
  the message of the thrown \<open>Error\<close>, or \<open>Unknown error\<close> for any other thrown
  value; \<open>m\<close> is empty exactly when the thrown \<open>Error\<close> has an empty message.
  \<open>executeRequest\<close> is a total function into responses: nothing is thrown past it.
\<close>

theorem executeRequest_transport_failure:
  assumes "host_fetch host (prepareCall request) = Inl error \<or>
           (\<exists>response. host_fetch host (prepareCall request) = Inr response \<and>
                        resp_text response = Inl error)"
  shows "executeRequest host request =
           \<lparr>rr_status = 0, rr_statusText = ''Network Error'', rr_headers = [],
            rr_data = JObj [(''error'', JStr (errorMessage error))],
            rr_responseTime = host_now_end host - host_now_start host, rr_size = 0\<rparr> \<and>
         (errorMessage error = [] \<longleftrightarrow> error = ErrorObject [])"
  using assms
  by (auto simp: executeRequest_def networkError_def errorMessage_def split: JsThrown.splits)

text \<open>
  C6: the call that \<open>executeRequest\<close> hands to \<open>fetch\<close> for a GET request has no
  body, whatever body the request configures.
\<close>

theorem get_sends_no_body:
  "req_method request = GET \<Longrightarrow> call_body (prepareCall request) = None"
  by (simp add: prepareCall_def Let_def)

text \<open>
  C10: for a GET request with a raw body of non-empty text and no enabled header of key
  \<open>Content-Type\<close>, the outgoing header set has \<open>Content-Type: application/json\<close>,
  and the call has no body.
\<close>

theorem get_raw_body_content_type:
  assumes "req_method request = GET"
    and "req_body request = Some b" and "body_mode b = raw"
    and "body_raw b = Some t" and "t \<noteq> []"
    and "\<forall>h \<in> set (req_header request). hdr_disabled h \<noteq> Some True \<longrightarrow> hdr_key h \<noteq> ''Content-Type''"
  shows "map_of (call_headers (prepareCall request)) ''Content-Type'' = Some ''application/json'' \<and>
         call_body (prepareCall request) = None"
proof -
  have "find (\<lambda>h. copied h \<and> hdr_key h = ''Content-Type'') (rev (req_header request)) = None"
    using assms(6) by (auto simp: find_None_iff copied_def)
  then have "map_of (prepareHeaders (req_header request)) ''Content-Type'' = None"
    by (simp add: map_of_prepareHeaders)
  then have "map_of (addAuthHeaders (req_auth request) (prepareHeaders (req_header request)))
               ''Content-Type'' = None"
    by (simp add: map_of_addAuthHeaders_other)
  moreover have "prepareBody (req_body request) = Some t"
    using assms by (simp add: prepareBody_def)
  ultimately have "map_of (call_headers (prepareCall request)) ''Content-Type'' = Some ''application/json''"
    by (simp add: call_headers_prepareCall addContentType_def map_of_js_set)
  moreover have "call_body (prepareCall request) = None"
    using assms(1) by (simp add: prepareCall_def Let_def)
  ultimately show ?thesis by simp
qed

theorem bearer_authorization_header_witness:
  "map_of (call_headers (prepareCall (basicThenBearerRequest ''abc''))) ''Authorization'' =
     Some ''Bearer abc'' \<and>
   length (filter (\<lambda>(k, v). k = ''Authorization'')
     (call_headers (prepareCall (basicThenBearerRequest ''abc'')))) = 1 \<and>
   prepareCall freshRequest = prepareCall (freshRequest\<lparr>req_auth := None\<rparr>)"
  using bearer_authorization_header [of "basicThenBearerRequest ''abc''" "bearerAuth ''abc''"
      "[\<lparr>kv_key = ''token'', kv_value = ''abc'', kv_type = ''string''\<rparr>]"
      "\<lparr>kv_key = ''token'', kv_value = ''abc'', kv_type = ''string''\<rparr>"
      freshRequest
      "\<lparr>auth_type = noauth, auth_bearer = None, auth_oauth2 = None, auth_basic = None,
        auth_apikey = None\<rparr>"]
  by (simp add: basicThenBearerRequest_def freshRequest_def bearerAuth_def)

theorem bearer_empty_token_keeps_header:
  "req_auth (basicThenBearerRequest []) = Some (bearerAuth []) \<and>
   auth_type (bearerAuth []) = bearer \<and>
   auth_bearer (bearerAuth []) = Some [\<lparr>kv_key = ''token'', kv_value = [], kv_type = ''string''\<rparr>] \<and>
   map_of (call_headers (prepareCall (basicThenBearerRequest []))) ''Authorization'' =
     Some ''Basic dXNlcg==''"
  by (simp add: basicThenBearerRequest_def freshRequest_def bearerAuth_def editorHeader_def
      prepareCall_def prepareHeaders_def prepareBody_def addAuthHeaders_def addContentType_def
      js_set_def)

theorem executeRequest_transport_failure_witness:
  "executeRequest (rejectingHost (ErrorObject ''Failed to fetch'')) freshRequest =
     \<lparr>rr_status = 0, rr_statusText = ''Network Error'', rr_headers = [],
      rr_data = JObj [(''error'', JStr ''Failed to fetch'')],
      rr_responseTime = 42, rr_size = 0\<rparr>"
  using executeRequest_transport_failure [of "rejectingHost (ErrorObject ''Failed to fetch'')"
      freshRequest "ErrorObject ''Failed to fetch''"]
  by (simp add: rejectingHost_def errorMessage_def)

theorem executeRequest_empty_message:
  "host_fetch (rejectingHost (ErrorObject [])) (prepareCall freshRequest) = Inl (ErrorObject []) \<and>
   rr_data (executeRequest (rejectingHost (ErrorObject [])) freshRequest) =
     JObj [(''error'', JStr [])]"
  by (simp add: rejectingHost_def executeRequest_def networkError_def errorMessage_def)

theorem get_sends_no_body_witness:
  "req_method getWithBodyRequest = GET \<and>
   req_body getWithBodyRequest = Some (rawBody ''{}'') \<and>
   call_body (prepareCall getWithBodyRequest) = None"
  using get_sends_no_body [of getWithBodyRequest]
  by (simp add: getWithBodyRequest_def freshRequest_def)

theorem get_raw_body_content_type_witness:
  "map_of (call_headers (prepareCall getWithBodyRequest)) ''Content-Type'' =
     Some ''application/json'' \<and>
   call_body (prepareCall getWithBodyRequest) = None"
  using get_raw_body_content_type [of getWithBodyRequest "rawBody ''{}''" "''{}''"]
  by (simp add: getWithBodyRequest_def freshRequest_def rawBody_def)

subsection \<open>Directory listing\<close>

lemma loadCollections_loop_map_filter:
  "loadCollections_loop parse (map Inr entries) acc =
     acc @ List.map_filter (\<lambda>e. if entry_matches e then entry_loads parse e else None) entries"
proof (induction entries arbitrary: acc)
  case Nil
  then show ?case by simp
next
  case (Cons e entries)
  show ?case
    by (simp add: Cons.IH entry_matches_def entry_loads_def
        split: sum.splits option.splits)
qed

lemma map_filter_all_some:
  "\<forall>x \<in> set xs. f x \<noteq> None \<Longrightarrow> List.map_filter f xs = map (\<lambda>x. the (f x)) xs"
  by (induction xs) auto

lemma map_filter_append_split:
  "List.map_filter f (xs @ ys) = List.map_filter f xs @ List.map_filter f ys"
  by (simp add: map_filter_def)

text \<open>
  C8: the listing returns, in order, what the entries that are files named
  \<open>*.collection.json\<close> load to, and nothing for any other entry or for an entry whose
  read or parse fails. So with one failing entry anywhere among matching entries that
  load, exactly the collections of the others are returned: two for three entries.
\<close>

theorem loadCollectionsFromFolder_skips_failures:
  "loadCollectionsFromFolder parse (map Inr entries) =
     List.map_filter (\<lambda>e. if entry_matches e then entry_loads parse e else None) entries \<and>
   ((\<forall>e \<in> set (before @ after). entry_matches e \<and> entry_loads parse e \<noteq> None) \<and>
    entry_matches corrupt \<and> entry_loads parse corrupt = None \<longrightarrow>
      loadCollectionsFromFolder parse (map Inr (before @ corrupt # after)) =
        map (\<lambda>e. the (entry_loads parse e)) (before @ after))"
proof (intro conjI impI)
  show "loadCollectionsFromFolder parse (map Inr entries) =
     List.map_filter (\<lambda>e. if entry_matches e then entry_loads parse e else None) entries"
    by (simp add: loadCollectionsFromFolder_def loadCollections_loop_map_filter)
next
  let ?f = "\<lambda>e. if entry_matches e then entry_loads parse e else None"
  assume h: "(\<forall>e \<in> set (before @ after). entry_matches e \<and> entry_loads parse e \<noteq> None) \<and>
    entry_matches corrupt \<and> entry_loads parse corrupt = None"
  then have all: "\<forall>e \<in> set (before @ after). ?f e \<noteq> None" by simp
  have "List.map_filter ?f (before @ corrupt # after) = List.map_filter ?f (before @ after)"
    using h by (simp add: map_filter_append_split)
  also have "\<dots> = map (\<lambda>e. the (?f e)) (before @ after)"
    using all by (rule map_filter_all_some)
  also have "\<dots> = map (\<lambda>e. the (entry_loads parse e)) (before @ after)"
    using h by (intro map_cong) auto
  finally show "loadCollectionsFromFolder parse (map Inr (before @ corrupt # after)) =
        map (\<lambda>e. the (entry_loads parse e)) (before @ after)"
    unfolding loadCollectionsFromFolder_def loadCollections_loop_map_filter by simp
qed

theorem loadCollectionsFromFolder_skips_failures_witness:
  "loadCollectionsFromFolder sampleParse
     [Inr (fileEntry ''a.collection.json'' ''{}''),
      Inr (fileEntry ''b.collection.json'' ''{bad''),
      Inr (fileEntry ''c.collection.json'' ''[]'')] = [JObj [], JArr []]"
  using loadCollectionsFromFolder_skips_failures
      [of sampleParse "[]" "[fileEntry ''a.collection.json'' ''{}'']"
          "[fileEntry ''c.collection.json'' ''[]'']" "fileEntry ''b.collection.json'' ''{bad''"]
  by (simp add: entry_matches_def entry_loads_def fileEntry_def sampleParse_def endsWith_def
      parsePostmanCollection_def)

end
